theory Spec2Isabelle
  imports Main "HOL-Library.AList"
begin

section \<open>Strings\<close>

text \<open>
  Python strings are modelled as \<^typ>\<open>string\<close>, a character standing for the code point
  of the same number (0 to 255). On these code points the string primitives the dialog
  uses are written out in full: \<^verbatim>\<open>str.lower\<close> moves \<^verbatim>\<open>A\<close>..\<^verbatim>\<open>Z\<close> and the capital
  letters U+00C0 to U+00DE (U+00D7, the multiplication sign, is no letter) 32 places up
  and leaves every other code point alone; \<^verbatim>\<open>str.strip\<close> removes the code points for
  which \<^verbatim>\<open>str.isspace\<close> holds: 9 to 13, 28 to 32, U+0085 and U+00A0.
\<close>

definition upper_letters :: "char list" where
  "upper_letters =
     ''ABCDEFGHIJKLMNOPQRSTUVWXYZ''
     @ [CHR 0xC0, CHR 0xC1, CHR 0xC2, CHR 0xC3, CHR 0xC4, CHR 0xC5, CHR 0xC6, CHR 0xC7,
        CHR 0xC8, CHR 0xC9, CHR 0xCA, CHR 0xCB, CHR 0xCC, CHR 0xCD, CHR 0xCE, CHR 0xCF,
        CHR 0xD0, CHR 0xD1, CHR 0xD2, CHR 0xD3, CHR 0xD4, CHR 0xD5, CHR 0xD6, CHR 0xD8,
        CHR 0xD9, CHR 0xDA, CHR 0xDB, CHR 0xDC, CHR 0xDD, CHR 0xDE]"

definition lower_letters :: "char list" where
  "lower_letters =
     ''abcdefghijklmnopqrstuvwxyz''
     @ [CHR 0xE0, CHR 0xE1, CHR 0xE2, CHR 0xE3, CHR 0xE4, CHR 0xE5, CHR 0xE6, CHR 0xE7,
        CHR 0xE8, CHR 0xE9, CHR 0xEA, CHR 0xEB, CHR 0xEC, CHR 0xED, CHR 0xEE, CHR 0xEF,
        CHR 0xF0, CHR 0xF1, CHR 0xF2, CHR 0xF3, CHR 0xF4, CHR 0xF5, CHR 0xF6, CHR 0xF8,
        CHR 0xF9, CHR 0xFA, CHR 0xFB, CHR 0xFC, CHR 0xFD, CHR 0xFE]"

definition lower_char :: "char \<Rightarrow> char" where
  "lower_char c =
     (case map_of (zip upper_letters lower_letters) c of
        Some l \<Rightarrow> l
      | None \<Rightarrow> c)"

definition lower :: "string \<Rightarrow> string" where
  "lower s = map lower_char s"

definition is_space :: "char \<Rightarrow> bool" where
  "is_space c =
     (c \<in> set [CHR 0x09, CHR 0x0A, CHR 0x0B, CHR 0x0C, CHR 0x0D,
                CHR 0x1C, CHR 0x1D, CHR 0x1E, CHR 0x1F, CHR 0x20,
                CHR 0x85, CHR 0xA0])"

definition strip :: "string \<Rightarrow> string" where
  "strip s = rev (dropWhile is_space (rev (dropWhile is_space s)))"

text \<open>\<^verbatim>\<open>s.replace(old, new)\<close> for a pattern \<open>old\<close> of one character.\<close>

definition replace_char :: "char \<Rightarrow> string \<Rightarrow> string \<Rightarrow> string" where
  "replace_char old new s = concat (map (\<lambda>c. if c = old then new else [c]) s)"

text \<open>
  \<^verbatim>\<open>html.escape(s, quote=True)\<close>, as the standard library writes it: five passes of
  \<^verbatim>\<open>replace\<close>, the ampersand first, then the angle brackets, then the two quotes.
\<close>

definition escape :: "string \<Rightarrow> string" where
  "escape s =
     (let s1 = replace_char (CHR ''&'') ''&amp;'' s;
          s2 = replace_char (CHR ''<'') ''&lt;'' s1;
          s3 = replace_char (CHR ''>'') ''&gt;'' s2;
          s4 = replace_char (CHR 0x22) ''&quot;'' s3;
          s5 = replace_char (CHR 0x27) ''&#x27;'' s4
      in s5)"

text \<open>\<^verbatim>\<open>sep.join(parts)\<close>.\<close>

fun join :: "string \<Rightarrow> string list \<Rightarrow> string" where
  "join sep [] = []"
| "join sep [x] = x"
| "join sep (x # y # ys) = x @ sep @ join sep (y # ys)"

section \<open>Data model\<close>

text \<open>A generated field is a pair (name, value); the attribution has three strings,
  each empty when absent (the default of a protobuf string). Every candidate carries
  an attribution object: \<^verbatim>\<open>proto.source\<close> is a protobuf sub-message, which is there
  (with three empty strings) also when the generator set none. An id of 0 is an id
  that is not set.\<close>

type_synonym generated_field = "string \<times> string"

record note_source =
  src_title :: string
  src_url :: string
  src_excerpt :: string

record generated_note =
  gn_fields :: "generated_field list"
  gn_source :: note_source
  gn_note_type_id :: int
  gn_deck_id :: int

section \<open>Source formatter\<close>

text \<open>\<^verbatim>\<open>_format_source\<close>: the list \<^verbatim>\<open>parts\<close> grows by appending; a string is
  truthy when it is not empty. The anchor is the f-string of the source.\<close>

definition anchor :: "string \<Rightarrow> string \<Rightarrow> string" where
  "anchor u t = ''<a href='' @ [CHR 0x22] @ escape u @ [CHR 0x22] @ ''>'' @ escape t @ ''</a>''"

definition format_source :: "note_source \<Rightarrow> string" where
  "format_source source =
     (let parts0 = [];
          parts1 = (if src_excerpt source \<noteq> [] then parts0 @ [escape (src_excerpt source)]
                    else parts0);
          parts2 = (if src_url source \<noteq> [] then
                      (if src_title source \<noteq> [] then
                         parts1 @ [anchor (src_url source) (src_title source)]
                       else parts1 @ [escape (src_url source)])
                    else if src_title source \<noteq> [] then parts1 @ [escape (src_title source)]
                    else parts1)
      in join ''<br>'' parts2)"

text \<open>
  The formatter as section 4.2 of the specification words it. Escaping replaces, in
  one pass, each of the five characters that HTML reserves by its entity. The segments
  are an optional excerpt and an optional link, joined by the line-break marker; the
  link is an anchor whose target is the escaped url and whose label is the escaped
  title, or the escaped url alone, or the escaped title alone.
\<close>

definition spec_escape_char :: "char \<Rightarrow> string" where
  "spec_escape_char c =
     (if c = CHR ''&'' then ''&amp;''
      else if c = CHR ''<'' then ''&lt;''
      else if c = CHR ''>'' then ''&gt;''
      else if c = CHR 0x22 then ''&quot;''
      else if c = CHR 0x27 then ''&#x27;''
      else [c])"

definition spec_escape :: "string \<Rightarrow> string" where
  "spec_escape s = concat (map spec_escape_char s)"

definition spec_excerpt_segment :: "note_source \<Rightarrow> string list" where
  "spec_excerpt_segment source =
     (if src_excerpt source = [] then [] else [spec_escape (src_excerpt source)])"

definition spec_link_segment :: "note_source \<Rightarrow> string list" where
  "spec_link_segment source =
     (if src_url source \<noteq> [] \<and> src_title source \<noteq> [] then
        [''<a href='' @ [CHR 0x22] @ spec_escape (src_url source) @ [CHR 0x22, CHR ''>'']
         @ spec_escape (src_title source) @ ''</a>'']
      else if src_url source \<noteq> [] then [spec_escape (src_url source)]
      else if src_title source \<noteq> [] then [spec_escape (src_title source)]
      else [])"

definition spec_format_source :: "note_source \<Rightarrow> string" where
  "spec_format_source source =
     (case (spec_excerpt_segment source, spec_link_segment source) of
        ([], []) \<Rightarrow> []
      | ([e], []) \<Rightarrow> e
      | ([], [l]) \<Rightarrow> l
      | (e # _, l # _) \<Rightarrow> e @ ''<br>'' @ l)"

section \<open>Dictionaries\<close>

text \<open>
  A Python \<^verbatim>\<open>dict\<close> keeps its keys in the order of their first insertion and, for each
  key, the value written last. It is an association list with distinct keys:
  \<^verbatim>\<open>d[k] = v\<close> overwrites in place or appends, \<^verbatim>\<open>d.pop(k, default)\<close> removes the entry
  and returns its value, or returns the default.
\<close>

type_synonym dict = "(string \<times> string) list"

primrec dict_set :: "string \<Rightarrow> string \<Rightarrow> dict \<Rightarrow> dict" where
  "dict_set k v [] = [(k, v)]"
| "dict_set k v (p # ps) = (if fst p = k then (k, v) # ps else p # dict_set k v ps)"

definition dict_pop :: "dict \<Rightarrow> string \<Rightarrow> string \<Rightarrow> string \<times> dict" where
  "dict_pop m k dflt =
     (case map_of m k of
        Some v \<Rightarrow> (v, filter (\<lambda>p. fst p \<noteq> k) m)
      | None \<Rightarrow> (dflt, m))"

text \<open>The comprehension \<^verbatim>\<open>{field.name.lower(): field.value for field in proto.fields}\<close>.\<close>

definition build_field_map :: "generated_field list \<Rightarrow> dict" where
  "build_field_map fs = foldl (\<lambda>m (name, val). dict_set (lower name) val m) [] fs"

section \<open>Preview projector\<close>

text \<open>
  \<^verbatim>\<open>_display_field\<close>. \<^verbatim>\<open>strip_html\<close> comes from \<^verbatim>\<open>anki.utils\<close>, which is not part of
  the dialog's file: it is the parameter \<open>strip_html\<close>.
\<close>

fun display_lookup :: "dict \<Rightarrow> string list \<Rightarrow> string option" where
  "display_lookup mapping [] = None"
| "display_lookup mapping (name # names) =
     (case map_of mapping name of
        Some v \<Rightarrow> Some v
      | None \<Rightarrow> display_lookup mapping names)"

definition display_field :: "(string \<Rightarrow> string) \<Rightarrow> generated_note \<Rightarrow> string list \<Rightarrow> string" where
  "display_field strip_html proto preferred_names =
     (let mapping = build_field_map (gn_fields proto) in
      case display_lookup mapping preferred_names of
        Some v \<Rightarrow> strip_html v
      | None \<Rightarrow> (case gn_fields proto of
                   [] \<Rightarrow> []
                 | f # _ \<Rightarrow> strip_html (snd f)))"

text \<open>\<^verbatim>\<open>_display_source\<close>: title, excerpt and url, each on its own line.\<close>

definition display_source_text :: "note_source \<Rightarrow> string" where
  "display_source_text source =
     (let parts0 = [];
          parts1 = (if src_title source \<noteq> [] then parts0 @ [src_title source] else parts0);
          parts2 = (if src_excerpt source \<noteq> [] then parts1 @ [src_excerpt source] else parts1);
          parts3 = (if src_url source \<noteq> [] then parts2 @ [src_url source] else parts2)
      in join [CHR 0x0A] parts3)"

definition front_names :: "string list" where
  "front_names = [''front'', ''question'', ''prompt'']"

definition back_names :: "string list" where
  "back_names = [''back'', ''answer'', ''response'']"

text \<open>The lookup as section 4.4 words it: for a name, the value of the last field whose
  lowercased name it is; the preferred name chosen is the first one that has a value.\<close>

definition spec_lookup :: "generated_field list \<Rightarrow> string \<Rightarrow> string option" where
  "spec_lookup fs name = map_option snd (find (\<lambda>f. lower (fst f) = name) (rev fs))"

definition spec_display_field ::
  "(string \<Rightarrow> string) \<Rightarrow> generated_note \<Rightarrow> string list \<Rightarrow> string" where
  "spec_display_field strip_html proto preferred_names =
     (case find (\<lambda>name. spec_lookup (gn_fields proto) name \<noteq> None) preferred_names of
        Some name \<Rightarrow> strip_html (case spec_lookup (gn_fields proto) name of Some v \<Rightarrow> v | None \<Rightarrow> [])
      | None \<Rightarrow> (if gn_fields proto = [] then [] else strip_html (snd (hd (gn_fields proto)))))"

section \<open>Dialog state\<close>

text \<open>
  A template (note type) is the ordered list of its field names (\<^verbatim>\<open>notetype["flds"]\<close>,
  each entry read through \<^verbatim>\<open>field["name"]\<close>). A note type that the collection
  holds has at least one field; the theorems about assembled notes say so where they
  need it (\<open>flds nt \<noteq> []\<close>). The dialog record holds the attributes of
  \<^verbatim>\<open>AiGeneratorDialog\<close> that the modelled methods read or write, the values of the
  widgets they query, and the two collection lookups they call.
\<close>

record notetype =
  flds :: "string list"

record preview_note =
  pn_proto :: generated_note
  display_front :: string
  display_back :: string
  display_source :: string

record tree_item =
  item_front :: string
  item_back :: string
  item_source :: string
  item_data :: nat

record dialog =
  generated_notes :: "preview_note list"
  preview_tree :: "tree_item list"
  use_default_checked :: bool
  default_notetype_id :: int
  note_type_combo_data :: "int option"
  deck_combo_data :: "int option"
  col_models :: "int \<Rightarrow> notetype option"
  col_current_deck :: int
  provider_combo_data :: int
  combo_items :: "string list"
  combo_text :: string
  models_cache :: "int \<Rightarrow> string list option"
  selected_models :: "int \<Rightarrow> string option"

datatype anki_msg = Missing_Notetype | Invalid_Notetype

datatype exn = AnkiError anki_msg | IndexError

section \<open>Model list cache\<close>

text \<open>The loop of \<^verbatim>\<open>_populate_model_combo\<close> that fills \<^verbatim>\<open>unique\<close> and \<^verbatim>\<open>seen\<close>.\<close>

fun unique_models :: "string list \<Rightarrow> string list \<Rightarrow> string set \<Rightarrow> string list" where
  "unique_models [] unique seen = unique"
| "unique_models (model # source) unique seen =
     (let trimmed = strip model in
      if trimmed \<noteq> [] \<and> trimmed \<notin> seen then
        unique_models source (unique @ [trimmed]) (insert trimmed seen)
      else unique_models source unique seen)"

text \<open>
  \<^verbatim>\<open>_populate_model_combo\<close>. The editable combo box is its item list and the text of
  its line edit; signals are blocked while it is refilled, and the placeholder text is
  presentation only.
\<close>

definition populate_model_combo ::
  "dialog \<Rightarrow> int \<Rightarrow> string list option \<Rightarrow> bool \<Rightarrow> dialog" where
  "populate_model_combo d provider models preserve_current =
     (let current_text =
            (if preserve_current then combo_text d
             else (case selected_models d provider of Some t \<Rightarrow> t | None \<Rightarrow> []));
          source =
            (case models of
               Some ms \<Rightarrow> ms
             | None \<Rightarrow> (case models_cache d provider of Some ms \<Rightarrow> ms | None \<Rightarrow> []));
          unique = unique_models source [] {};
          d1 = d\<lparr>combo_items := unique, combo_text := current_text\<rparr>
      in if strip current_text \<noteq> [] then
           d1\<lparr>selected_models := (selected_models d1)(provider \<mapsto> strip current_text)\<rparr>
         else d1)"

text \<open>\<^verbatim>\<open>_on_model_text_changed\<close>, the slot of the combo box's \<^verbatim>\<open>editTextChanged\<close>.\<close>

definition on_model_text_changed :: "dialog \<Rightarrow> string \<Rightarrow> dialog" where
  "on_model_text_changed d text =
     (let provider = provider_combo_data d; stripped = strip text in
      if stripped \<noteq> [] then d\<lparr>selected_models := (selected_models d)(provider \<mapsto> stripped)\<rparr>
      else d\<lparr>selected_models := (selected_models d)(provider := None)\<rparr>)"

text \<open>\<^verbatim>\<open>combo.setEditText\<close> with signals enabled: the slot runs when the text changes.\<close>

definition set_edit_text :: "dialog \<Rightarrow> string \<Rightarrow> dialog" where
  "set_edit_text d text =
     (let d1 = d\<lparr>combo_text := text\<rparr> in
      if text \<noteq> combo_text d then on_model_text_changed d1 text else d1)"

text \<open>The callback \<^verbatim>\<open>on_success\<close> of \<^verbatim>\<open>_on_refresh_models\<close>, for the provider captured
  when the refresh was started and the list of models in the response.\<close>

definition on_refresh_success :: "dialog \<Rightarrow> int \<Rightarrow> string list \<Rightarrow> dialog" where
  "on_refresh_success d provider models =
     (let d1 = d\<lparr>models_cache := (models_cache d)(provider \<mapsto> models)\<rparr>;
          d2 = populate_model_combo d1 provider (Some models) True
      in if strip (combo_text d2) = [] \<and> models \<noteq> [] then set_edit_text d2 (hd models)
         else d2)"

text \<open>Deduplication as section 4.6 words it: trim, drop the empty strings, keep the
  first occurrence of each.\<close>

definition spec_dedup :: "string list \<Rightarrow> string list" where
  "spec_dedup models = rev (remdups (rev (filter (\<lambda>m. m \<noteq> []) (map strip models))))"

section \<open>Note assembler\<close>

definition blank_line :: string where
  "blank_line = [CHR 0x0A, CHR 0x0A]"

text \<open>\<^verbatim>\<open>xs[i] = v\<close> raises \<^verbatim>\<open>IndexError\<close> out of range.\<close>

definition setitem :: "'a list \<Rightarrow> nat \<Rightarrow> 'a \<Rightarrow> exn + 'a list" where
  "setitem xs i v = (if i < length xs then Inr (xs[i := v]) else Inl IndexError)"

text \<open>Modelled from the spec: \<^verbatim>\<open>Collection.new_note\<close> is not in the dialog's file. By
  section 3 the record under construction has one value per template slot; before
  matching every value is the empty string.\<close>

definition new_note :: "notetype \<Rightarrow> string list" where
  "new_note nt = replicate (length (flds nt)) []"

definition current_note_type_id :: "dialog \<Rightarrow> int" where
  "current_note_type_id d = (case note_type_combo_data d of None \<Rightarrow> 0 | Some v \<Rightarrow> v)"

definition current_deck_id :: "dialog \<Rightarrow> int" where
  "current_deck_id d = (case deck_combo_data d of None \<Rightarrow> 0 | Some v \<Rightarrow> v)"

definition effective_note_type_id :: "dialog \<Rightarrow> int" where
  "effective_note_type_id d =
     (if use_default_checked d \<and> default_notetype_id d \<noteq> 0 then default_notetype_id d
      else current_note_type_id d)"

text \<open>The working state of one call of \<^verbatim>\<open>_create_note\<close>: the candidate it was given,
  the local dictionary \<^verbatim>\<open>field_map\<close> and the field list of the note being built.\<close>

record assembly =
  asm_candidate :: generated_note
  asm_field_map :: dict
  asm_note :: "string list"

text \<open>The loop over \<^verbatim>\<open>enumerate(notetype["flds"])\<close> that pops each slot's value.\<close>

fun match_slots :: "string list \<Rightarrow> nat \<Rightarrow> dict \<Rightarrow> string list \<Rightarrow> exn + (dict \<times> string list)" where
  "match_slots [] idx field_map note = Inr (field_map, note)"
| "match_slots (field # rest) idx field_map note =
     (let name = lower field;
          (val, field_map') = dict_pop field_map name []
      in case setitem note idx val of
           Inl e \<Rightarrow> Inl e
         | Inr note' \<Rightarrow> match_slots rest (Suc idx) field_map' note')"

text \<open>The search \<^verbatim>\<open>for idx, field in enumerate(notetype["flds"])\<close> for the first slot
  whose lowercased name is the target.\<close>

fun find_slot :: "string list \<Rightarrow> nat \<Rightarrow> string \<Rightarrow> nat option" where
  "find_slot [] idx target = None"
| "find_slot (field # rest) idx target =
     (if lower field = target then Some idx else find_slot rest (Suc idx) target)"

text \<open>\<^verbatim>\<open>_assign_source_field\<close>; \<^verbatim>\<open>note.fields[-1]\<close> raises on an empty list.\<close>

definition assign_source_field :: "string list \<Rightarrow> notetype \<Rightarrow> string \<Rightarrow> exn + string list" where
  "assign_source_field note nt val =
     (case find_slot (flds nt) 0 ''source'' of
        Some idx \<Rightarrow> setitem note idx val
      | None \<Rightarrow>
          (if note = [] then Inl IndexError
           else Inr (note[length note - 1 := strip (last note @ blank_line @ val)])))"

text \<open>The block under the comment "Append any remaining fields to the back field if
  present".\<close>

definition overflow :: "dict \<Rightarrow> notetype \<Rightarrow> string list \<Rightarrow> exn + string list" where
  "overflow field_map nt note =
     (if field_map \<noteq> [] then
        (case find_slot (flds nt) 0 ''back'' of
           Some back_index \<Rightarrow>
             (let extras = map strip (filter (\<lambda>v. strip v \<noteq> []) (map snd field_map)) in
              if extras \<noteq> [] then
                (if back_index < length note then
                   (let segments = [strip (note ! back_index), join blank_line extras] in
                    Inr (note[back_index := join blank_line (filter (\<lambda>s. s \<noteq> []) segments)]))
                 else Inl IndexError)
              else Inr note)
         | None \<Rightarrow> Inr note)
      else Inr note)"

definition match_step :: "notetype \<Rightarrow> assembly \<Rightarrow> exn + assembly" where
  "match_step nt a =
     (case match_slots (flds nt) 0 (asm_field_map a) (asm_note a) of
        Inl e \<Rightarrow> Inl e
      | Inr (field_map, note) \<Rightarrow> Inr (a\<lparr>asm_field_map := field_map, asm_note := note\<rparr>))"

text \<open>The test \<^verbatim>\<open>if proto.source\<close> holds for every candidate, a protobuf sub-message
  being truthy whether or not it was set: the source is formatted and assigned each
  time.\<close>

definition source_step :: "notetype \<Rightarrow> assembly \<Rightarrow> exn + assembly" where
  "source_step nt a =
     (let source_value = format_source (gn_source (asm_candidate a)) in
      case assign_source_field (asm_note a) nt source_value of
        Inl e \<Rightarrow> Inl e
      | Inr note \<Rightarrow> Inr (a\<lparr>asm_note := note\<rparr>))"

definition overflow_step :: "notetype \<Rightarrow> assembly \<Rightarrow> exn + assembly" where
  "overflow_step nt a =
     (case overflow (asm_field_map a) nt (asm_note a) of
        Inl e \<Rightarrow> Inl e
      | Inr note \<Rightarrow> Inr (a\<lparr>asm_note := note\<rparr>))"

definition assemble :: "notetype \<Rightarrow> generated_note \<Rightarrow> exn + assembly" where
  "assemble nt proto =
     (let a0 = \<lparr>asm_candidate = proto,
                asm_field_map = build_field_map (gn_fields proto),
                asm_note = new_note nt\<rparr>
      in case match_step nt a0 of
           Inl e \<Rightarrow> Inl e
         | Inr a1 \<Rightarrow>
             (case source_step nt a1 of
                Inl e \<Rightarrow> Inl e
              | Inr a2 \<Rightarrow> overflow_step nt a2))"

text \<open>\<^verbatim>\<open>_create_note\<close>, returning the final working state and the deck id.\<close>

definition create_note_state :: "dialog \<Rightarrow> generated_note \<Rightarrow> exn + (assembly \<times> int)" where
  "create_note_state d proto =
     (let notetype_id =
            (if gn_note_type_id proto \<noteq> 0 then gn_note_type_id proto
             else effective_note_type_id d)
      in if notetype_id = 0 then Inl (AnkiError Missing_Notetype)
         else
           (let deck_id0 = (if gn_deck_id proto \<noteq> 0 then gn_deck_id proto else current_deck_id d);
                deck_id = (if deck_id0 = 0 then col_current_deck d else deck_id0)
            in case col_models d notetype_id of
                 None \<Rightarrow> Inl (AnkiError Invalid_Notetype)
               | Some nt \<Rightarrow>
                   (case assemble nt proto of
                      Inl e \<Rightarrow> Inl e
                    | Inr a \<Rightarrow> Inr (a, deck_id))))"

text \<open>What \<^verbatim>\<open>_create_note\<close> returns: the note's fields and the deck id.\<close>

definition create_note :: "dialog \<Rightarrow> generated_note \<Rightarrow> exn + (string list \<times> int)" where
  "create_note d proto =
     (case create_note_state d proto of
        Inl e \<Rightarrow> Inl e
      | Inr (a, deck_id) \<Rightarrow> Inr (asm_note a, deck_id))"

text \<open>Step 1 of section 4.3: the template a candidate resolves to, if any.\<close>

definition resolve_template :: "dialog \<Rightarrow> generated_note \<Rightarrow> notetype option" where
  "resolve_template d proto =
     (let notetype_id =
            (if gn_note_type_id proto \<noteq> 0 then gn_note_type_id proto
             else effective_note_type_id d)
      in if notetype_id = 0 then None else col_models d notetype_id)"

text \<open>The value the field matcher gives slot \<open>i\<close>: the value looked up under the slot's
  lowercased name, unless an earlier slot of the same lowercased name took it.\<close>

definition slot_match :: "generated_field list \<Rightarrow> string list \<Rightarrow> nat \<Rightarrow> string" where
  "slot_match fs slots i =
     (if lower (slots ! i) \<in> set (map lower (take i slots)) then []
      else (case spec_lookup fs (lower (slots ! i)) of Some v \<Rightarrow> v | None \<Rightarrow> []))"

text \<open>The value the matching loop pops for slot \<open>j\<close> out of a dictionary.\<close>

definition popped :: "dict \<Rightarrow> string list \<Rightarrow> nat \<Rightarrow> string" where
  "popped fm slots j =
     (if lower (slots ! j) \<in> set (map lower (take j slots)) then []
      else (case map_of fm (lower (slots ! j)) of Some v \<Rightarrow> v | None \<Rightarrow> []))"

text \<open>The lookup built from a candidate's fields, in words: one entry per distinct
  lowercased field name, in the order in which the names first occur, each with the
  value of the last field of that name.\<close>

definition last_wins_fields :: "generated_field list \<Rightarrow> dict" where
  "last_wins_fields fs =
     map (\<lambda>k. (k, case spec_lookup fs k of Some v \<Rightarrow> v | None \<Rightarrow> []))
         (rev (remdups (rev (map (\<lambda>f. lower (fst f)) fs))))"

text \<open>The non-blank values of a dictionary, trimmed: the list \<^verbatim>\<open>extras\<close>.\<close>

definition extras_of :: "dict \<Rightarrow> string list" where
  "extras_of fm = filter (\<lambda>v. v \<noteq> []) (map (\<lambda>p. strip (snd p)) fm)"

text \<open>The slot that source placement writes: the first slot named "source", else the
  last slot.\<close>

definition source_target :: "notetype \<Rightarrow> nat option" where
  "source_target nt =
     (case find_slot (flds nt) 0 ''source'' of
        Some i \<Rightarrow> Some i
      | None \<Rightarrow> (if flds nt = [] then None else Some (length (flds nt) - 1)))"

section \<open>Batch selector\<close>

record add_note_request =
  req_note :: "string list"
  req_deck_id :: int

text \<open>\<^verbatim>\<open>sorted(set(indices), reverse=True)\<close>.\<close>

definition unique_indices :: "int list \<Rightarrow> int list" where
  "unique_indices indices = rev (sort (remdups indices))"

text \<open>\<^verbatim>\<open>xs[i]\<close> for a Python integer: a negative index counts from the end, and an index
  outside the list raises \<^verbatim>\<open>IndexError\<close>.\<close>

definition getitem :: "'a list \<Rightarrow> int \<Rightarrow> exn + 'a" where
  "getitem xs i =
     (if i < 0 then
        (if - i \<le> int (length xs) then Inr (xs ! (length xs - nat (- i)))
         else Inl IndexError)
      else if i < int (length xs) then Inr (xs ! nat i)
      else Inl IndexError)"

text \<open>The loop of \<^verbatim>\<open>_add_notes\<close> over \<^verbatim>\<open>unique_indices\<close>: it returns the requests built
  and the exception that ended it, if one did.\<close>

fun add_notes_loop ::
  "dialog \<Rightarrow> int list \<Rightarrow> add_note_request list \<Rightarrow> add_note_request list \<times> exn option" where
  "add_notes_loop d [] requests = (requests, None)"
| "add_notes_loop d (index # rest) requests =
     (if index \<ge> int (length (generated_notes d)) then add_notes_loop d rest requests
      else
        (case getitem (generated_notes d) index of
           Inl e \<Rightarrow> (requests, Some e)
         | Inr pn \<Rightarrow>
             (case create_note d (pn_proto pn) of
                Inl e \<Rightarrow> (requests, Some e)
              | Inr (note, deck_id) \<Rightarrow>
                  add_notes_loop d rest
                    (requests @ [\<lparr>req_note = note, req_deck_id = deck_id\<rparr>]))))"

text \<open>
  How a call of \<^verbatim>\<open>_add_notes\<close> ends: it returns at once on an empty selection; it
  catches an \<^verbatim>\<open>AnkiError\<close>, shows it and returns; another exception leaves the method;
  or it starts the collection operation with the requests, keeping the deduplicated
  indices for the success callback.
\<close>

datatype outcome =
    Returned
  | Info_Shown anki_msg
  | Raised exn
  | Op_Started "add_note_request list" "int list"

text \<open>\<^verbatim>\<open>_add_notes\<close>: the requests assembled during the call, and how it ended. The
  method assigns no attribute of the dialog.\<close>

definition add_notes :: "dialog \<Rightarrow> int list \<Rightarrow> add_note_request list \<times> outcome" where
  "add_notes d indices =
     (let unique = unique_indices indices in
      if unique = [] then ([], Returned)
      else
        (case add_notes_loop d unique [] of
           (requests, Some (AnkiError msg)) \<Rightarrow> (requests, Info_Shown msg)
         | (requests, Some IndexError) \<Rightarrow> (requests, Raised IndexError)
         | (requests, None) \<Rightarrow> (requests, Op_Started requests unique)))"

text \<open>\<^verbatim>\<open>_set_preview_notes\<close>: the candidate list is replaced and the tree is rebuilt, each
  row carrying its position as data.\<close>

definition set_preview_notes :: "dialog \<Rightarrow> preview_note list \<Rightarrow> dialog" where
  "set_preview_notes d notes =
     d\<lparr>generated_notes := notes,
       preview_tree :=
         map (\<lambda>(idx, note).
                \<lparr>item_front = display_front note, item_back = display_back note,
                 item_source = display_source note, item_data = idx\<rparr>)
             (enumerate 0 notes)\<rparr>"

text \<open>\<^verbatim>\<open>_on_add_success\<close>.\<close>

definition on_add_success :: "dialog \<Rightarrow> int list \<Rightarrow> dialog" where
  "on_add_success d indices =
     (let indices_set = set indices in
      set_preview_notes d
        (map snd (filter (\<lambda>(idx, note). int idx \<notin> indices_set)
                         (enumerate 0 (generated_notes d)))))"

text \<open>
  One submission from start to end. The record store is the parameter \<open>store_accepts\<close>:
  whether \<^verbatim>\<open>col.add_notes\<close> succeeds on the requests. On success the callback
  \<^verbatim>\<open>_on_add_success\<close> runs with the deduplicated indices; \<^verbatim>\<open>_on_add_failure\<close> only shows
  the exception.
\<close>

definition submit :: "dialog \<Rightarrow> int list \<Rightarrow> (add_note_request list \<Rightarrow> bool) \<Rightarrow> dialog" where
  "submit d indices store_accepts =
     (case snd (add_notes d indices) of
        Op_Started requests unique \<Rightarrow>
          (if store_accepts requests then on_add_success d unique else d)
      | _ \<Rightarrow> d)"

definition is_started :: "outcome \<Rightarrow> bool" where
  "is_started out = (case out of Op_Started _ _ \<Rightarrow> True | _ \<Rightarrow> False)"

text \<open>The request \<^verbatim>\<open>_add_notes\<close> builds for one index below the candidate count.\<close>

definition request_at :: "dialog \<Rightarrow> int \<Rightarrow> add_note_request option" where
  "request_at d index =
     (case getitem (generated_notes d) index of
        Inl e \<Rightarrow> None
      | Inr pn \<Rightarrow>
          (case create_note d (pn_proto pn) of
             Inl e \<Rightarrow> None
           | Inr (note, deck_id) \<Rightarrow> Some \<lparr>req_note = note, req_deck_id = deck_id\<rparr>))"

text \<open>A candidate fails template resolution when neither its own note type id nor the
  dialog's effective note type id names a known template.\<close>

definition fails_resolution :: "dialog \<Rightarrow> generated_note \<Rightarrow> bool" where
  "fails_resolution d proto =
     ((gn_note_type_id proto = 0 \<or> col_models d (gn_note_type_id proto) = None)
      \<and> (effective_note_type_id d = 0 \<or> col_models d (effective_note_type_id d) = None))"

section \<open>Example data\<close>

definition no_attribution :: note_source where
  "no_attribution = \<lparr>src_title = [], src_url = [], src_excerpt = []\<rparr>"

definition attributed :: "generated_field list \<Rightarrow> note_source \<Rightarrow> int \<Rightarrow> generated_note" where
  "attributed fs source ntid =
     \<lparr>gn_fields = fs, gn_source = source, gn_note_type_id = ntid, gn_deck_id = 0\<rparr>"

definition candidate :: "generated_field list \<Rightarrow> generated_note" where
  "candidate fs = attributed fs no_attribution 0"

definition excerpt_only :: "string \<Rightarrow> note_source" where
  "excerpt_only e = \<lparr>src_title = [], src_url = [], src_excerpt = e\<rparr>"

definition preview :: "generated_note \<Rightarrow> preview_note" where
  "preview proto =
     \<lparr>pn_proto = proto,
      display_front = display_field id proto front_names,
      display_back = display_field id proto back_names,
      display_source = display_source_text (gn_source proto)\<rparr>"

definition basic :: notetype where
  "basic = \<lparr>flds = [''Front'', ''Back'']\<rparr>"

definition cited :: notetype where
  "cited = \<lparr>flds = [''Front'', ''Back'', ''Source'']\<rparr>"

text \<open>A dialog whose note type combo points at the template \<open>basic\<close> (id 1), with three
  candidates in the preview. The collection also knows the template \<open>cited\<close> (id 2).\<close>

definition example_dialog :: dialog where
  "example_dialog =
     set_preview_notes
       \<lparr>generated_notes = [], preview_tree = [],
        use_default_checked = False, default_notetype_id = 0,
        note_type_combo_data = Some 1, deck_combo_data = Some 7,
        col_models =
          (\<lambda>i. if i = 1 then Some basic
               else if i = 2 then Some cited
               else None),
        col_current_deck = 1,
        provider_combo_data = 1, combo_items = [], combo_text = [],
        models_cache = (\<lambda>p. None), selected_models = (\<lambda>p. None)\<rparr>
       [preview (candidate [(''Front'', ''Q0''), (''Back'', ''A0'')]),
        preview (candidate [(''Front'', ''Q1''), (''Back'', ''A1'')]),
        preview (candidate [(''Front'', ''Q2''), (''Back'', ''A2'')])]"

section \<open>Properties of the source formatter\<close>

lemma replace_char_append:
  "replace_char old new (xs @ ys) = replace_char old new xs @ replace_char old new ys"
  by (simp add: replace_char_def)

lemma replace_char_Cons:
  "replace_char old new (c # s) = (if c = old then new else [c]) @ replace_char old new s"
  by (simp add: replace_char_def)

lemma replace_char_Nil: "replace_char old new [] = []"
  by (simp add: replace_char_def)

lemma escape_Cons: "escape (c # s) = spec_escape_char c @ escape s"
  by (simp add: escape_def spec_escape_char_def replace_char_Cons replace_char_append
      replace_char_Nil)

lemma escape_one_pass: "escape s = spec_escape s"
proof (induction s)
  case Nil
  show ?case by (simp add: escape_def spec_escape_def replace_char_def)
next
  case (Cons c s)
  then show ?case by (simp add: escape_Cons spec_escape_def)
qed

text \<open>
  C5. For every attribution, \<^verbatim>\<open>_format_source\<close> returns the escaped segments joined
  by the line-break marker: the escaped excerpt first when present; then the anchor of
  escaped url and escaped title when both are present, the escaped url alone when only
  the url is present, the escaped title alone when only the title is present; and the
  empty string when excerpt, url and title are all absent. The examples are those of
  section 8, and one in which every reserved character occurs.
\<close>

theorem format_source_spec:
  "format_source source = spec_format_source source
   \<and> format_source \<lparr>src_title = ''X'', src_url = ''http://x'', src_excerpt = []\<rparr>
     = ''<a href='' @ [CHR 0x22] @ ''http://x'' @ [CHR 0x22] @ ''>X</a>''
   \<and> format_source \<lparr>src_title = [], src_url = [], src_excerpt = ''E''\<rparr> = ''E''
   \<and> format_source \<lparr>src_title = [], src_url = [], src_excerpt = []\<rparr> = []
   \<and> format_source \<lparr>src_title = [], src_url = ''u&v'', src_excerpt = []\<rparr> = ''u&amp;v''
   \<and> format_source \<lparr>src_title = ''T>'', src_url = [], src_excerpt = CHR 0x27 # ''e''\<rparr>
     = ''&#x27;e<br>T&gt;''
   \<and> format_source \<lparr>src_title = ''a<b'', src_url = ''u&v'' @ [CHR 0x22], src_excerpt = ''E''\<rparr>
     = ''E<br><a href='' @ [CHR 0x22] @ ''u&amp;v&quot;'' @ [CHR 0x22] @ ''>a&lt;b</a>''"
proof (rule conjI)
  show "format_source source = spec_format_source source"
    by (simp add: format_source_def anchor_def spec_format_source_def spec_excerpt_segment_def
        spec_link_segment_def escape_one_pass)
qed (simp add: format_source_def anchor_def escape_def replace_char_def)

section \<open>Properties of the preview projector\<close>

lemma dict_set_update: "dict_set k v m = AList.update k v m"
  by (induction m) auto

lemma find_append:
  "find P (xs @ ys) = (case find P xs of Some x \<Rightarrow> Some x | None \<Rightarrow> find P ys)"
  by (induction xs) auto

lemma build_field_map_snoc:
  "build_field_map (fs @ [f]) = dict_set (lower (fst f)) (snd f) (build_field_map fs)"
  by (simp add: build_field_map_def split: prod.splits)

lemma map_of_build_field_map: "map_of (build_field_map fs) name = spec_lookup fs name"
proof (induction fs rule: rev_induct)
  case Nil
  then show ?case by (simp add: build_field_map_def spec_lookup_def)
next
  case (snoc f fs)
  then show ?case
    by (simp add: build_field_map_snoc dict_set_update update_conv' spec_lookup_def)
qed

lemma display_lookup_find:
  "display_lookup m names =
     (case find (\<lambda>name. map_of m name \<noteq> None) names of
        Some name \<Rightarrow> map_of m name
      | None \<Rightarrow> None)"
  by (induction names) (auto split: option.splits)

lemma display_field_refines:
  "display_field strip_html proto preferred_names
   = spec_display_field strip_html proto preferred_names"
  apply (simp add: display_field_def spec_display_field_def display_lookup_find
      map_of_build_field_map split: option.splits list.splits)
  apply (auto dest: find_Some_iff[THEN iffD1] simp: find_None_iff)
  done

text \<open>
  C8. For every candidate, \<^verbatim>\<open>_display_field\<close> derives the display from the first
  preferred name present in the case-insensitive lookup of the candidate's fields in
  which the last write per name wins; when no preferred name is present it falls back
  to the value of the first field, or to the empty string when there are no fields.
  Fields prompt = P, answer = A give front P and back A.
\<close>

theorem display_field_spec:
  "display_field strip_html proto preferred_names
     = spec_display_field strip_html proto preferred_names
   \<and> display_field strip_html (candidate [(''prompt'', ''P''), (''answer'', ''A'')]) front_names
     = strip_html ''P''
   \<and> display_field strip_html (candidate [(''prompt'', ''P''), (''answer'', ''A'')]) back_names
     = strip_html ''A''
   \<and> display_field strip_html (candidate [(''Front'', ''old''), (''FRONT'', ''new'')]) front_names
     = strip_html ''new''
   \<and> display_field strip_html (candidate [(''Term'', ''T''), (''Gloss'', ''G'')]) front_names
     = strip_html ''T''
   \<and> display_field strip_html (candidate []) front_names = []"
proof (rule conjI)
  show "display_field strip_html proto preferred_names
        = spec_display_field strip_html proto preferred_names"
    by (rule display_field_refines)
qed (simp add: display_field_def build_field_map_def front_names_def back_names_def
       candidate_def attributed_def lower_def lower_char_def upper_letters_def
       lower_letters_def)

section \<open>Properties of the batch selector\<close>

lemma unique_indices_distinct: "distinct (unique_indices indices)"
  by (simp add: unique_indices_def)

lemma unique_indices_set: "set (unique_indices indices) = set indices"
  by (simp add: unique_indices_def)

lemma unique_indices_descending: "sorted_wrt (>) (unique_indices indices)"
proof -
  have "sorted (sort (remdups indices))" "distinct (sort (remdups indices))"
    by simp_all
  then have "sorted_wrt (<) (sort (remdups indices))"
    by (simp add: strict_sorted_iff)
  then show ?thesis
    by (simp add: unique_indices_def sorted_wrt_rev)
qed

lemma add_notes_loop_requests:
  "add_notes_loop d is reqs = (reqs', None) \<Longrightarrow>
   map Some reqs' =
     map Some reqs
     @ map (request_at d) (filter (\<lambda>i. i < int (length (generated_notes d))) is)"
proof (induction "is" arbitrary: reqs)
  case Nil
  then show ?case by simp
next
  case (Cons i "is")
  show ?case
  proof (cases "i \<ge> int (length (generated_notes d))")
    case True
    with Cons show ?thesis by simp
  next
    case False
    with Cons.prems obtain pn nf deck where
      g: "getitem (generated_notes d) i = Inr pn" and
      c: "create_note d (pn_proto pn) = Inr (nf, deck)" and
      r: "add_notes_loop d is (reqs @ [\<lparr>req_note = nf, req_deck_id = deck\<rparr>]) = (reqs', None)"
      by (auto split: sum.splits)
    from Cons.IH[OF r] False g c show ?thesis
      by (simp add: request_at_def)
  qed
qed

lemma add_notes_loop_abort:
  "index \<in> set is \<Longrightarrow> 0 \<le> index \<Longrightarrow> index < int (length (generated_notes d)) \<Longrightarrow>
   create_note d (pn_proto (generated_notes d ! nat index)) = Inl e \<Longrightarrow>
   snd (add_notes_loop d is reqs) \<noteq> None"
proof (induction "is" arbitrary: reqs)
  case Nil
  then show ?case by simp
next
  case (Cons i "is")
  show ?case
  proof (cases "i = index")
    case True
    with Cons.prems show ?thesis by (simp add: getitem_def)
  next
    case False
    with Cons show ?thesis by (auto split: sum.splits)
  qed
qed

lemma create_note_fails:
  "fails_resolution d proto \<Longrightarrow>
   create_note d proto = Inl (AnkiError Missing_Notetype) \<or>
   create_note d proto = Inl (AnkiError Invalid_Notetype)"
  by (auto simp: fails_resolution_def create_note_def create_note_state_def Let_def)

lemma enumerate_filter_nths:
  "map snd (filter (\<lambda>(idx, x). P idx) (enumerate 0 xs)) = nths xs {i. P i}"
proof -
  have "zip [0..<length xs] xs = map prod.swap (zip xs [0..<length xs])"
    by (simp add: zip_commute[of "[0..<length xs]" xs] prod.swap_def case_prod_unfold)
  then show ?thesis
    by (simp add: filter_map comp_def case_prod_unfold nths_def enumerate_eq_zip)
qed

lemma on_add_success_notes:
  "generated_notes (on_add_success d indices)
   = nths (generated_notes d) {i. int i \<notin> set indices}"
  by (simp add: on_add_success_def set_preview_notes_def Let_def enumerate_filter_nths)

lemma set_preview_notes_data:
  "map item_data (preview_tree (set_preview_notes d notes)) = [0..<length notes]"
  by (simp add: set_preview_notes_def enumerate_eq_zip comp_def case_prod_unfold)

lemma on_add_success_data:
  "map item_data (preview_tree (on_add_success d indices))
   = [0..<length (generated_notes (on_add_success d indices))]"
  by (simp add: on_add_success_def Let_def set_preview_notes_data)
     (simp add: set_preview_notes_def)

lemma add_notes_started:
  assumes "snd (add_notes d indices) = Op_Started requests unique"
  shows "unique = unique_indices indices"
    and "add_notes_loop d (unique_indices indices) [] = (requests, None)"
  using assms
  by (auto simp: add_notes_def Let_def split: if_splits prod.splits option.splits exn.splits)

lemma add_notes_loop_skip:
  "add_notes_loop d is reqs
   = add_notes_loop d (filter (\<lambda>i. i < int (length (generated_notes d))) is) reqs"
proof (induction "is" arbitrary: reqs)
  case Nil
  show ?case by simp
next
  case (Cons i "is")
  then show ?case by (simp split: sum.splits prod.splits)
qed

lemma add_notes_all_skipped:
  assumes "indices \<noteq> []" and "\<forall>i\<in>set indices. int (length (generated_notes d)) \<le> i"
  shows "add_notes d indices = ([], Op_Started [] (unique_indices indices))"
proof -
  have "filter (\<lambda>i. i < int (length (generated_notes d))) (unique_indices indices) = []"
    using assms(2) by (auto simp: filter_empty_conv unique_indices_set)
  then have "add_notes_loop d (unique_indices indices) [] = ([], None)"
    using add_notes_loop_skip[of d "unique_indices indices" "[]"] by simp
  moreover have "unique_indices indices \<noteq> []"
    using assms(1) unique_indices_set[of indices] by (metis set_empty)
  ultimately show ?thesis by (simp add: add_notes_def)
qed

text \<open>
  C6. For every collection of chosen indices, \<^verbatim>\<open>_add_notes\<close> works on a duplicate-free
  list in descending order holding the chosen indices. Its loop skips every index at or
  beyond the candidate count: it runs as it does on the list without them, and a
  selection of such indices only starts the operation with no request. The requests
  it submits are those of the listed indices below the count, in that order. After a
  successful submission the candidates whose position is a submitted index are
  removed, the others keep their relative order, and the rows carry the positions
  0, 1, 2, ... as \<^verbatim>\<open>original_index\<close>.
\<close>

theorem batch_selector_spec:
  "distinct (unique_indices indices)
   \<and> sorted_wrt (>) (unique_indices indices)
   \<and> set (unique_indices indices) = set indices
   \<and> add_notes_loop d listed built
       = add_notes_loop d (filter (\<lambda>i. i < int (length (generated_notes d))) listed) built
   \<and> (indices \<noteq> [] \<and> (\<forall>i\<in>set indices. int (length (generated_notes d)) \<le> i) \<longrightarrow>
        add_notes d indices = ([], Op_Started [] (unique_indices indices)))
   \<and> (snd (add_notes d indices) = Op_Started requests unique \<longrightarrow>
        unique = unique_indices indices
        \<and> map Some requests
            = map (request_at d) (filter (\<lambda>i. i < int (length (generated_notes d))) unique)
        \<and> (store_accepts requests \<longrightarrow>
             generated_notes (submit d indices store_accepts)
               = nths (generated_notes d) {i. int i \<notin> set indices}
             \<and> map item_data (preview_tree (submit d indices store_accepts))
               = [0..<length (generated_notes (submit d indices store_accepts))]))"
proof (intro conjI impI)
  show "distinct (unique_indices indices)" by (rule unique_indices_distinct)
  show "sorted_wrt (>) (unique_indices indices)" by (rule unique_indices_descending)
  show "set (unique_indices indices) = set indices" by (rule unique_indices_set)
  show "add_notes_loop d listed built
       = add_notes_loop d (filter (\<lambda>i. i < int (length (generated_notes d))) listed) built"
    by (rule add_notes_loop_skip)
next
  assume "indices \<noteq> [] \<and> (\<forall>i\<in>set indices. int (length (generated_notes d)) \<le> i)"
  then show "add_notes d indices = ([], Op_Started [] (unique_indices indices))"
    by (simp add: add_notes_all_skipped)
next
  assume st: "snd (add_notes d indices) = Op_Started requests unique"
  show u: "unique = unique_indices indices" using add_notes_started(1)[OF st] .
  from add_notes_loop_requests[OF add_notes_started(2)[OF st]] u
  show "map Some requests
        = map (request_at d) (filter (\<lambda>i. i < int (length (generated_notes d))) unique)"
    by simp
  assume ok: "store_accepts requests"
  have s: "submit d indices store_accepts = on_add_success d (unique_indices indices)"
    using st ok u by (simp add: submit_def)
  show "generated_notes (submit d indices store_accepts)
          = nths (generated_notes d) {i. int i \<notin> set indices}"
    by (simp add: s on_add_success_notes unique_indices_set)
  show "map item_data (preview_tree (submit d indices store_accepts))
          = [0..<length (generated_notes (submit d indices store_accepts))]"
    by (simp only: s on_add_success_data)
qed

theorem batch_selector_witness:
  "snd (add_notes example_dialog [0, 2, 2, 3, 5])
     = Op_Started [\<lparr>req_note = [''Q2'', ''A2''], req_deck_id = 7\<rparr>,
                   \<lparr>req_note = [''Q0'', ''A0''], req_deck_id = 7\<rparr>] [5, 3, 2, 0]
   \<and> unique_indices [0, 2, 2, 3, 5] = [5, 3, 2, 0]
   \<and> map pn_proto (generated_notes (submit example_dialog [0, 2, 2, 3, 5] (\<lambda>requests. True)))
     = [candidate [(''Front'', ''Q1''), (''Back'', ''A1'')]]
   \<and> map item_data (preview_tree (submit example_dialog [0, 2, 2, 3, 5] (\<lambda>requests. True))) = [0]
   \<and> int (length (generated_notes example_dialog)) = 3
   \<and> add_notes example_dialog [3] = ([], Op_Started [] [3])
   \<and> add_notes_loop example_dialog [3, 4] [] = ([], None)"
proof -
  have st: "snd (add_notes example_dialog [0, 2, 2, 3, 5])
     = Op_Started [\<lparr>req_note = [''Q2'', ''A2''], req_deck_id = 7\<rparr>,
                   \<lparr>req_note = [''Q0'', ''A0''], req_deck_id = 7\<rparr>] [5, 3, 2, 0]"
    by code_simp
  have gn: "generated_notes example_dialog =
       [preview (candidate [(''Front'', ''Q0''), (''Back'', ''A0'')]),
        preview (candidate [(''Front'', ''Q1''), (''Back'', ''A1'')]),
        preview (candidate [(''Front'', ''Q2''), (''Back'', ''A2'')])]"
    by (simp add: example_dialog_def set_preview_notes_def)
  have b: "[3] \<noteq> [] \<and> (\<forall>i\<in>set [3]. int (length (generated_notes example_dialog)) \<le> i)"
    by (simp add: gn)
  have u: "unique_indices [3] = [3]" by (simp add: unique_indices_def)
  from batch_selector_spec[of "[0, 2, 2, 3, 5]" example_dialog _ _ _ _ "\<lambda>requests. True"] st
  have r1: "unique_indices [0, 2, 2, 3, 5] = [5, 3, 2, 0]
    \<and> map pn_proto (generated_notes (submit example_dialog [0, 2, 2, 3, 5] (\<lambda>requests. True)))
       = [candidate [(''Front'', ''Q1''), (''Back'', ''A1'')]]
    \<and> map item_data (preview_tree (submit example_dialog [0, 2, 2, 3, 5] (\<lambda>requests. True))) = [0]"
    by (simp add: gn nths_Cons preview_def)
  from batch_selector_spec[of "[3]" example_dialog] b u
  have r2: "add_notes example_dialog [3] = ([], Op_Started [] [3])"
    by simp
  from batch_selector_spec[of _ example_dialog "[3, 4]" "[]"]
  have r3: "add_notes_loop example_dialog [3, 4] [] = ([], None)"
    by (simp add: gn)
  from st r1 r2 r3 show ?thesis by (simp add: gn)
qed

text \<open>
  C7. If a selected candidate fails template resolution, \<^verbatim>\<open>_create_note\<close> raises the
  missing-template or the invalid-template error for it, \<^verbatim>\<open>_add_notes\<close> ends without
  starting the submission, and the dialog (the live candidate set with it) is
  unchanged.
\<close>

theorem resolution_failure_aborts:
  assumes "index \<in> set indices"
    and "0 \<le> index"
    and "index < int (length (generated_notes d))"
    and "fails_resolution d (pn_proto (generated_notes d ! nat index))"
  shows "(create_note d (pn_proto (generated_notes d ! nat index)) = Inl (AnkiError Missing_Notetype)
          \<or> create_note d (pn_proto (generated_notes d ! nat index)) = Inl (AnkiError Invalid_Notetype))
         \<and> snd (add_notes d indices) \<noteq> Returned
         \<and> \<not> is_started (snd (add_notes d indices))
         \<and> submit d indices store_accepts = d"
proof -
  let ?proto = "pn_proto (generated_notes d ! nat index)"
  have f: "create_note d ?proto = Inl (AnkiError Missing_Notetype)
           \<or> create_note d ?proto = Inl (AnkiError Invalid_Notetype)"
    using assms(4) by (rule create_note_fails)
  then obtain e where e: "create_note d ?proto = Inl e" by blast
  have "index \<in> set (unique_indices indices)"
    using assms(1) by (simp add: unique_indices_set)
  from add_notes_loop_abort[OF this assms(2) assms(3) e]
  have l: "snd (add_notes_loop d (unique_indices indices) []) \<noteq> None" .
  have ne: "unique_indices indices \<noteq> []"
    using assms(1) unique_indices_set[of indices] by auto
  have o: "snd (add_notes d indices) \<noteq> Returned \<and> \<not> is_started (snd (add_notes d indices))"
    using l ne
    by (auto simp: add_notes_def is_started_def Let_def
        split: prod.splits option.splits exn.splits)
  then have "submit d indices store_accepts = d"
    by (auto simp: submit_def is_started_def split: outcome.splits)
  with f o show ?thesis by blast
qed

theorem resolution_failure_aborts_witness:
  "(2::int) \<in> set [0, 2]
   \<and> fails_resolution (example_dialog\<lparr>note_type_combo_data := None\<rparr>)
        (pn_proto (generated_notes (example_dialog\<lparr>note_type_combo_data := None\<rparr>) ! nat 2))
   \<and> snd (add_notes (example_dialog\<lparr>note_type_combo_data := None\<rparr>) [0, 2])
       = Info_Shown Missing_Notetype
   \<and> submit (example_dialog\<lparr>note_type_combo_data := None\<rparr>) [0, 2] (\<lambda>requests. True)
       = example_dialog\<lparr>note_type_combo_data := None\<rparr>"
proof -
  let ?d = "example_dialog\<lparr>note_type_combo_data := None\<rparr>"
  have h1: "(2::int) \<in> set [0, 2]" by simp
  have h2: "(0::int) \<le> 2" by simp
  have h3: "2 < int (length (generated_notes ?d))"
    by (simp add: example_dialog_def set_preview_notes_def)
  have h4: "fails_resolution ?d (pn_proto (generated_notes ?d ! nat 2))"
    by code_simp
  have o: "snd (add_notes ?d [0, 2]) = Info_Shown Missing_Notetype"
    by code_simp
  from resolution_failure_aborts[OF h1 h2 h3 h4, of "\<lambda>requests. True"] h1 h4 o
  show ?thesis by simp
qed

text \<open>
  C10. When the deduplicated selection is empty, \<^verbatim>\<open>_add_notes\<close> returns at once: no
  request is assembled, no submission is started, and the dialog is unchanged.
\<close>

theorem empty_selection_noop:
  assumes "unique_indices indices = []"
  shows "add_notes d indices = ([], Returned) \<and> submit d indices store_accepts = d"
  using assms by (simp add: add_notes_def submit_def)

theorem empty_selection_noop_witness:
  "unique_indices [] = []
   \<and> add_notes example_dialog [] = ([], Returned)
   \<and> submit example_dialog [] (\<lambda>requests. True) = example_dialog"
proof -
  have h: "unique_indices [] = []" by (simp add: unique_indices_def)
  from empty_selection_noop[OF h, of example_dialog "\<lambda>requests. True"] h
  show ?thesis by simp
qed

section \<open>Properties of the model list cache\<close>

lemma remdups_snoc: "remdups (ys @ [x]) = remdups (filter (\<lambda>y. y \<noteq> x) ys) @ [x]"
  by (induction ys) auto

lemma first_occurrence_snoc:
  "rev (remdups (rev xs @ [x])) = x # rev (remdups (rev (filter (\<lambda>y. y \<noteq> x) xs)))"
  by (simp add: remdups_snoc rev_filter)

lemma unique_models_acc:
  "unique_models source u (set u)
   = u @ rev (remdups (rev (filter (\<lambda>m. m \<noteq> [] \<and> m \<notin> set u) (map strip source))))"
proof (induction source arbitrary: u)
  case Nil
  then show ?case by simp
next
  case (Cons model source)
  let ?t = "strip model"
  show ?case
  proof (cases "?t \<noteq> [] \<and> ?t \<notin> set u")
    case True
    have "unique_models (model # source) u (set u)
          = unique_models source (u @ [?t]) (set (u @ [?t]))"
      using True by (simp add: Let_def)
    also have "\<dots> = (u @ [?t]) @ rev (remdups (rev
        (filter (\<lambda>m. m \<noteq> [] \<and> m \<notin> set (u @ [?t])) (map strip source))))"
      by (rule Cons.IH)
    also have "filter (\<lambda>m. m \<noteq> [] \<and> m \<notin> set (u @ [?t])) (map strip source)
        = filter (\<lambda>y. y \<noteq> ?t) (filter (\<lambda>m. m \<noteq> [] \<and> m \<notin> set u) (map strip source))"
      by (auto intro: filter_cong)
    finally show ?thesis using True by (simp add: first_occurrence_snoc)
  next
    case False
    then show ?thesis using Cons.IH[of u] by (auto simp: Let_def)
  qed
qed

lemma unique_models_dedup: "unique_models source [] {} = spec_dedup source"
  using unique_models_acc[of source "[]"] by (simp add: spec_dedup_def)

lemma refresh_items: "combo_items (on_refresh_success d provider models) = spec_dedup models"
  by (simp add: on_refresh_success_def populate_model_combo_def set_edit_text_def
      on_model_text_changed_def Let_def unique_models_dedup)

lemma refresh_text:
  "combo_text (on_refresh_success d provider models)
   = (if strip (combo_text d) = [] \<and> models \<noteq> [] then hd models else combo_text d)"
  by (simp add: on_refresh_success_def populate_model_combo_def set_edit_text_def
      on_model_text_changed_def Let_def)

lemma hd_spec_dedup: "strip m \<noteq> [] \<Longrightarrow> hd (spec_dedup (m # ms)) = strip m"
  by (simp add: spec_dedup_def remdups_snoc)

text \<open>
  C9, as amended. After a refresh the combo box lists the models trimmed, without the
  empty strings and without repetitions, each at its first occurrence (the input
  a, " a ", b, a gives a, b). The typed text is kept when it is not blank. When it is
  blank and the raw list starts with a non-blank entry, that entry is written to the
  text field as it is, and trimmed it is the first model of the deduplicated list. With
  an empty list the text is kept.
\<close>

theorem model_list_cache:
  "combo_items (on_refresh_success d provider models) = spec_dedup models
   \<and> spec_dedup [''a'', '' a '', ''b'', ''a''] = [''a'', ''b'']
   \<and> (strip (combo_text d) \<noteq> [] \<longrightarrow>
        combo_text (on_refresh_success d provider models) = combo_text d)
   \<and> (strip (combo_text d) = [] \<and> models \<noteq> [] \<and> strip (hd models) \<noteq> [] \<longrightarrow>
        combo_text (on_refresh_success d provider models) = hd models
        \<and> hd (spec_dedup models) = strip (hd models))
   \<and> (models = [] \<longrightarrow> combo_text (on_refresh_success d provider models) = combo_text d)"
proof (intro conjI impI)
  show "combo_items (on_refresh_success d provider models) = spec_dedup models"
    by (rule refresh_items)
  show "spec_dedup [''a'', '' a '', ''b'', ''a''] = [''a'', ''b'']"
    by (simp add: spec_dedup_def strip_def is_space_def)
next
  assume "strip (combo_text d) \<noteq> []"
  then show "combo_text (on_refresh_success d provider models) = combo_text d"
    by (simp add: refresh_text)
next
  assume h: "strip (combo_text d) = [] \<and> models \<noteq> [] \<and> strip (hd models) \<noteq> []"
  then show "combo_text (on_refresh_success d provider models) = hd models"
    by (simp add: refresh_text)
  from h show "hd (spec_dedup models) = strip (hd models)"
    by (cases models) (simp_all add: hd_spec_dedup)
next
  assume "models = []"
  then show "combo_text (on_refresh_success d provider models) = combo_text d"
    by (simp add: refresh_text)
qed

theorem model_list_cache_witness:
  "strip (combo_text (example_dialog\<lparr>combo_text := ''mine''\<rparr>)) \<noteq> []
   \<and> combo_text (on_refresh_success (example_dialog\<lparr>combo_text := ''mine''\<rparr>) 1
        [''a'', '' a '', ''b'', ''a'']) = ''mine''
   \<and> combo_items (on_refresh_success (example_dialog\<lparr>combo_text := ''mine''\<rparr>) 1
        [''a'', '' a '', ''b'', ''a'']) = [''a'', ''b'']
   \<and> strip (combo_text example_dialog) = []
   \<and> combo_text (on_refresh_success example_dialog 1 ['' a '', ''b'']) = '' a ''
   \<and> hd (spec_dedup ['' a '', ''b'']) = ''a''
   \<and> combo_text (on_refresh_success example_dialog 1 []) = []"
proof -
  let ?d = "example_dialog\<lparr>combo_text := ''mine''\<rparr>"
  have t0: "combo_text example_dialog = []"
    by (simp add: example_dialog_def set_preview_notes_def)
  have h1: "strip (combo_text ?d) \<noteq> []"
    by (simp add: strip_def is_space_def)
  have h2: "strip (combo_text example_dialog) = [] \<and> ['' a '', ''b''] \<noteq> []
            \<and> strip (hd ['' a '', ''b'']) \<noteq> []"
    by (simp add: t0 strip_def is_space_def)
  have s: "strip '' a '' = ''a''" by (simp add: strip_def is_space_def)
  from model_list_cache[of ?d 1 "[''a'', '' a '', ''b'', ''a'']"] h1
  have r1: "combo_text (on_refresh_success ?d 1 [''a'', '' a '', ''b'', ''a'']) = ''mine''"
    and r1': "combo_items (on_refresh_success ?d 1 [''a'', '' a '', ''b'', ''a'']) = [''a'', ''b'']"
    by simp_all
  from model_list_cache[of example_dialog 1 "['' a '', ''b'']"] h2
  have r2: "combo_text (on_refresh_success example_dialog 1 ['' a '', ''b'']) = '' a ''"
    and r2': "hd (spec_dedup ['' a '', ''b'']) = ''a''"
    by (simp_all add: s)
  from model_list_cache[of example_dialog 1 "[]"]
  have r3: "combo_text (on_refresh_success example_dialog 1 []) = []"
    by (simp add: t0)
  from h1 h2 r1 r1' r2 r2' r3 show ?thesis by simp
qed

text \<open>A typed text of one space is not empty, yet the refresh replaces it; and with a
  raw list whose first entry is empty the text stays empty although the combo box
  offers a model.\<close>

theorem model_list_cache_counterexample:
  "combo_text (on_refresh_success (example_dialog\<lparr>combo_text := '' ''\<rparr>) 1 [''a'']) = ''a''
   \<and> combo_items (on_refresh_success example_dialog 1 [[], ''a'']) = [''a'']
   \<and> combo_text (on_refresh_success example_dialog 1 [[], ''a'']) = []"
  by (simp add: on_refresh_success_def populate_model_combo_def set_edit_text_def
      on_model_text_changed_def Let_def example_dialog_def set_preview_notes_def
      strip_def is_space_def)

section \<open>Properties of the note assembler\<close>

lemma filter_absent_key: "map_of m k = None \<Longrightarrow> filter (\<lambda>p. fst p \<noteq> k) m = m"
  by (induction m) (auto split: if_splits)

lemma dict_pop_eq:
  "dict_pop m k [] =
     ((case map_of m k of Some v \<Rightarrow> v | None \<Rightarrow> []), filter (\<lambda>p. fst p \<noteq> k) m)"
  by (simp add: dict_pop_def filter_absent_key split: option.splits)

lemma map_of_filter_key:
  "map_of (filter (\<lambda>p. fst p \<noteq> k) m) k' = (if k' = k then None else map_of m k')"
  by (induction m) auto

lemma popped_Cons_0: "popped fm (s # rest) 0 = (case map_of fm (lower s) of Some v \<Rightarrow> v | None \<Rightarrow> [])"
  by (simp add: popped_def)

lemma popped_Cons_Suc:
  "popped fm (s # rest) (Suc j) = popped (filter (\<lambda>p. fst p \<noteq> lower s) fm) rest j"
  by (auto simp: popped_def map_of_filter_key)

lemma match_slots_result:
  "idx + length slots \<le> length nf \<Longrightarrow>
   \<exists>nf'. match_slots slots idx fm nf
           = Inr (filter (\<lambda>p. fst p \<notin> set (map lower slots)) fm, nf')
         \<and> length nf' = length nf
         \<and> (\<forall>j<length slots. nf' ! (idx + j) = popped fm slots j)
         \<and> (\<forall>k<length nf. k < idx \<or> idx + length slots \<le> k \<longrightarrow> nf' ! k = nf ! k)"
proof (induction slots arbitrary: idx fm nf)
  case Nil
  then show ?case by simp
next
  case (Cons s rest)
  let ?v = "case map_of fm (lower s) of Some v \<Rightarrow> v | None \<Rightarrow> []"
  let ?fm = "filter (\<lambda>p. fst p \<noteq> lower s) fm"
  have len: "Suc idx + length rest \<le> length (nf[idx := ?v])" using Cons.prems by simp
  from Cons.IH[OF len, of ?fm] obtain nf' where
    r: "match_slots rest (Suc idx) ?fm (nf[idx := ?v])
        = Inr (filter (\<lambda>p. fst p \<notin> set (map lower rest)) ?fm, nf')"
    and l: "length nf' = length nf"
    and a: "\<forall>j<length rest. nf' ! (Suc idx + j) = popped ?fm rest j"
    and b: "\<forall>k<length nf. k < Suc idx \<or> Suc idx + length rest \<le> k \<longrightarrow> nf' ! k = (nf[idx := ?v]) ! k"
    by auto
  have f: "filter (\<lambda>p. fst p \<notin> set (map lower rest)) ?fm
           = filter (\<lambda>p. fst p \<notin> set (map lower (s # rest))) fm"
    by (induction fm) auto
  have m: "match_slots (s # rest) idx fm nf
           = Inr (filter (\<lambda>p. fst p \<notin> set (map lower (s # rest))) fm, nf')"
    using Cons.prems r f by (simp add: dict_pop_eq setitem_def)
  have a': "\<forall>j<length (s # rest). nf' ! (idx + j) = popped fm (s # rest) j"
  proof (intro allI impI)
    fix j assume j: "j < length (s # rest)"
    show "nf' ! (idx + j) = popped fm (s # rest) j"
    proof (cases j)
      case 0
      have "nf' ! idx = (nf[idx := ?v]) ! idx" using b Cons.prems by simp
      then show ?thesis using 0 Cons.prems by (simp add: popped_Cons_0)
    next
      case (Suc j')
      then show ?thesis using a j by (simp add: popped_Cons_Suc)
    qed
  qed
  have b': "\<forall>k<length nf. k < idx \<or> idx + length (s # rest) \<le> k \<longrightarrow> nf' ! k = nf ! k"
    using b by auto
  from m l a' b' show ?case by blast
qed

lemma find_slot_Some:
  "find_slot slots idx t = Some i \<Longrightarrow>
   idx \<le> i \<and> i - idx < length slots \<and> lower (slots ! (i - idx)) = t
   \<and> (\<forall>j<i - idx. lower (slots ! j) \<noteq> t)"
proof (induction slots arbitrary: idx)
  case Nil
  then show ?case by simp
next
  case (Cons s rest)
  show ?case
  proof (cases "lower s = t")
    case True
    with Cons.prems show ?thesis by simp
  next
    case False
    with Cons.prems have r: "find_slot rest (Suc idx) t = Some i" by simp
    from Cons.IH[OF r] have h: "Suc idx \<le> i" "i - Suc idx < length rest"
      "lower (rest ! (i - Suc idx)) = t" "\<forall>j<i - Suc idx. lower (rest ! j) \<noteq> t" by auto
    have e: "i - idx = Suc (i - Suc idx)" using h(1) by simp
    show ?thesis using h False by (auto simp: e nth_Cons split: nat.splits)
  qed
qed

lemma find_slot_None: "find_slot slots idx t = None \<longleftrightarrow> t \<notin> set (map lower slots)"
  by (induction slots arbitrary: idx) auto

lemma find_slot_first:
  "i < length slots \<Longrightarrow> lower (slots ! i) = t \<Longrightarrow> \<forall>j<i. lower (slots ! j) \<noteq> t \<Longrightarrow>
   find_slot slots idx t = Some (idx + i)"
proof (induction slots arbitrary: idx i)
  case Nil
  then show ?case by simp
next
  case (Cons s rest)
  show ?case
  proof (cases i)
    case 0
    with Cons.prems show ?thesis by simp
  next
    case (Suc i')
    with Cons.prems have "lower s \<noteq> t" by auto
    moreover have "find_slot rest (Suc idx) t = Some (Suc idx + i')"
      using Cons.prems Suc by (intro Cons.IH) auto
    ultimately show ?thesis using Suc by simp
  qed
qed

lemma build_field_map_keys:
  "map fst (build_field_map fs) = rev (remdups (rev (map (\<lambda>f. lower (fst f)) fs)))"
proof (induction fs rule: rev_induct)
  case Nil
  then show ?case by (simp add: build_field_map_def)
next
  case (snoc f fs)
  then show ?case
    by (simp add: build_field_map_snoc dict_set_update update_keys)
qed

lemma distinct_keys_alist:
  "distinct (map fst m) \<Longrightarrow>
   m = map (\<lambda>k. (k, case map_of m k of Some v \<Rightarrow> v | None \<Rightarrow> d)) (map fst m)"
proof (induction m)
  case Nil
  then show ?case by simp
next
  case (Cons p m)
  have "map (\<lambda>k. (k, case map_of (p # m) k of Some v \<Rightarrow> v | None \<Rightarrow> d)) (map fst m)
        = map (\<lambda>k. (k, case map_of m k of Some v \<Rightarrow> v | None \<Rightarrow> d)) (map fst m)"
    using Cons.prems by (intro map_cong) (auto simp: rev_image_eqI)
  with Cons show ?case by (cases p) simp
qed

lemma build_field_map_last_wins: "build_field_map fs = last_wins_fields fs"
proof -
  have d: "distinct (map fst (build_field_map fs))"
    by (simp add: build_field_map_keys)
  from distinct_keys_alist[OF d, of "[]"] show ?thesis
    by (simp add: last_wins_fields_def map_of_build_field_map build_field_map_keys[symmetric])
qed

lemma popped_build: "popped (build_field_map fs) slots i = slot_match fs slots i"
  by (simp add: popped_def slot_match_def map_of_build_field_map)

lemma match_slots_initial:
  "match_slots (flds nt) 0 (build_field_map fs) (new_note nt)
   = Inr (filter (\<lambda>p. fst p \<notin> set (map lower (flds nt))) (last_wins_fields fs),
          map (slot_match fs (flds nt)) [0..<length (flds nt)])"
proof -
  have "0 + length (flds nt) \<le> length (new_note nt)" by (simp add: new_note_def)
  from match_slots_result[OF this, of "build_field_map fs"] obtain nf' where
    r: "match_slots (flds nt) 0 (build_field_map fs) (new_note nt)
        = Inr (filter (\<lambda>p. fst p \<notin> set (map lower (flds nt))) (build_field_map fs), nf')"
    and l: "length nf' = length (new_note nt)"
    and a: "\<forall>j<length (flds nt). nf' ! (0 + j) = popped (build_field_map fs) (flds nt) j"
    by blast
  have "nf' = map (slot_match fs (flds nt)) [0..<length (flds nt)]"
    using l a by (intro nth_equalityI) (simp_all add: new_note_def popped_build)
  with r show ?thesis by (simp add: build_field_map_last_wins)
qed

text \<open>
  C2, as amended. For every candidate and template, matching gives each slot the value
  of the last field whose lowercased name is the slot's (the empty string when there is
  none, or when an earlier slot of the same name took it); what stays unconsumed is one
  entry per distinct lowercased field name that matches no slot, in the order of first
  occurrence, with the value of the last field of that name. Earlier duplicates are
  discarded when the lookup is built.
\<close>

theorem field_matcher_last_wins:
  "match_slots (flds nt) 0 (build_field_map fs) (new_note nt)
   = Inr (filter (\<lambda>p. fst p \<notin> set (map lower (flds nt))) (last_wins_fields fs),
          map (slot_match fs (flds nt)) [0..<length (flds nt)])"
  by (rule match_slots_initial)

text \<open>On the template Front, Back: the slot Front receives the value of the second
  field named front, and of the two fields named extra only the second reaches the
  back slot.\<close>

theorem duplicate_fields_counterexample:
  "create_note example_dialog
     (candidate [(''Front'', ''A''), (''front'', ''B''), (''Extra'', ''x''), (''extra'', ''y'')])
   = Inr ([''B'', ''y''], 7)"
  by code_simp

lemma match_step_initial:
  "match_step nt \<lparr>asm_candidate = proto, asm_field_map = build_field_map fs, asm_note = new_note nt\<rparr>
   = Inr \<lparr>asm_candidate = proto,
          asm_field_map = filter (\<lambda>p. fst p \<notin> set (map lower (flds nt))) (last_wins_fields fs),
          asm_note = map (slot_match fs (flds nt)) [0..<length (flds nt)]\<rparr>"
  by (simp add: match_step_def match_slots_initial)

lemma source_step_result:
  assumes "length (asm_note a) = length (flds nt)" and "flds nt \<noteq> []"
  shows "source_step nt a =
     Inr (a\<lparr>asm_note :=
              (case find_slot (flds nt) 0 ''source'' of
                 Some i \<Rightarrow> (asm_note a)[i := format_source (gn_source (asm_candidate a))]
               | None \<Rightarrow>
                   (asm_note a)[length (flds nt) - 1 :=
                     strip (last (asm_note a) @ blank_line
                            @ format_source (gn_source (asm_candidate a)))])\<rparr>)"
proof (cases "find_slot (flds nt) 0 ''source''")
  case None
  have "asm_note a \<noteq> []" using assms by auto
  with None assms show ?thesis
    by (simp add: source_step_def assign_source_field_def)
next
  case (Some i)
  from find_slot_Some[OF Some] have "i < length (asm_note a)" using assms by simp
  with Some show ?thesis
    by (simp add: source_step_def assign_source_field_def setitem_def)
qed

lemma extras_eq: "map strip (filter (\<lambda>v. strip v \<noteq> []) (map snd fm)) = extras_of fm"
  by (induction fm) (auto simp: extras_of_def)

lemma join_nonempty: "xs \<noteq> [] \<Longrightarrow> [] \<notin> set xs \<Longrightarrow> join sep xs \<noteq> []"
  by (induction sep xs rule: join.induct) auto

lemma extras_of_nonempty: "[] \<notin> set (extras_of fm)"
  by (simp add: extras_of_def)

lemma overflow_result:
  assumes "length nf = length (flds nt)"
  shows "overflow fm nt nf =
     Inr (case find_slot (flds nt) 0 ''back'' of
            None \<Rightarrow> nf
          | Some i \<Rightarrow>
              (if extras_of fm = [] then nf
               else nf[i := (if strip (nf ! i) = [] then join blank_line (extras_of fm)
                             else strip (nf ! i) @ blank_line @ join blank_line (extras_of fm))]))"
proof (cases "fm = []")
  case True
  then show ?thesis by (simp add: overflow_def extras_of_def split: option.splits)
next
  case False
  show ?thesis
  proof (cases "find_slot (flds nt) 0 ''back''")
    case None
    then show ?thesis by (simp add: overflow_def)
  next
    case (Some i)
    from find_slot_Some[OF Some] have i: "i < length nf" using assms by simp
    show ?thesis
    proof (cases "extras_of fm = []")
      case True
      with Some False show ?thesis by (simp add: overflow_def extras_eq)
    next
      case ne: False
      then have "join blank_line (extras_of fm) \<noteq> []"
        by (rule join_nonempty) (rule extras_of_nonempty)
      with Some False i ne show ?thesis by (simp add: overflow_def extras_eq)
    qed
  qed
qed

lemma overflow_step_result:
  assumes "length (asm_note a) = length (flds nt)"
  shows "overflow_step nt a =
     Inr (a\<lparr>asm_note :=
              (case find_slot (flds nt) 0 ''back'' of
                 None \<Rightarrow> asm_note a
               | Some i \<Rightarrow>
                   (if extras_of (asm_field_map a) = [] then asm_note a
                    else (asm_note a)[i :=
                           (if strip (asm_note a ! i) = [] then join blank_line (extras_of (asm_field_map a))
                            else strip (asm_note a ! i) @ blank_line
                                 @ join blank_line (extras_of (asm_field_map a)))]))\<rparr>)"
  by (simp add: overflow_step_def overflow_result[OF assms])

lemma update_last: "xs \<noteq> [] \<Longrightarrow> xs[length xs - 1 := v] = butlast xs @ [v]"
  by (induction xs rule: rev_induct) auto

lemma assemble_result:
  assumes "flds nt \<noteq> []"
  shows "\<exists>a. assemble nt proto = Inr a
        \<and> length (asm_note a) = length (flds nt)
        \<and> asm_candidate a = proto
        \<and> (\<forall>i<length (flds nt).
             source_target nt \<noteq> Some i \<and> find_slot (flds nt) 0 ''back'' \<noteq> Some i
             \<longrightarrow> asm_note a ! i = slot_match (gn_fields proto) (flds nt) i)"
proof -
  let ?n = "length (flds nt)"
  define a1 where "a1 = \<lparr>asm_candidate = proto,
      asm_field_map = filter (\<lambda>p. fst p \<notin> set (map lower (flds nt))) (last_wins_fields (gn_fields proto)),
      asm_note = map (slot_match (gn_fields proto) (flds nt)) [0..<?n]\<rparr>"
  have l1: "length (asm_note a1) = ?n" and c1: "asm_candidate a1 = proto"
    by (simp_all add: a1_def)
  from source_step_result[OF l1 assms] obtain a2 where
    s2: "source_step nt a1 = Inr a2" and
    d2: "a2 = a1\<lparr>asm_note :=
              (case find_slot (flds nt) 0 ''source'' of
                 Some i \<Rightarrow> (asm_note a1)[i := format_source (gn_source (asm_candidate a1))]
               | None \<Rightarrow>
                   (asm_note a1)[length (flds nt) - 1 :=
                     strip (last (asm_note a1) @ blank_line
                            @ format_source (gn_source (asm_candidate a1)))])\<rparr>"
    by blast
  have l2: "length (asm_note a2) = ?n" and c2: "asm_candidate a2 = proto"
    using l1 c1 by (auto simp: d2 split: option.splits)
  have n2: "asm_note a2 ! i = asm_note a1 ! i" if "source_target nt \<noteq> Some i" for i
    using that assms by (auto simp: d2 source_target_def split: option.splits)
  from overflow_step_result[OF l2] obtain a3 where
    s3: "overflow_step nt a2 = Inr a3" and
    d3: "a3 = a2\<lparr>asm_note :=
              (case find_slot (flds nt) 0 ''back'' of
                 None \<Rightarrow> asm_note a2
               | Some i \<Rightarrow>
                   (if extras_of (asm_field_map a2) = [] then asm_note a2
                    else (asm_note a2)[i :=
                           (if strip (asm_note a2 ! i) = [] then join blank_line (extras_of (asm_field_map a2))
                            else strip (asm_note a2 ! i) @ blank_line
                                 @ join blank_line (extras_of (asm_field_map a2)))]))\<rparr>"
    by blast
  have l3: "length (asm_note a3) = ?n" and c3: "asm_candidate a3 = proto"
    using l2 c2 by (auto simp: d3 split: option.splits)
  have n3: "asm_note a3 ! i = asm_note a2 ! i" if "find_slot (flds nt) 0 ''back'' \<noteq> Some i" for i
    using that by (auto simp: d3 split: option.splits)
  have "assemble nt proto = Inr a3"
    using s2 s3 by (simp add: assemble_def match_step_initial a1_def)
  moreover have "asm_note a3 ! i = slot_match (gn_fields proto) (flds nt) i"
    if "i < ?n" "source_target nt \<noteq> Some i" "find_slot (flds nt) 0 ''back'' \<noteq> Some i" for i
    using that n3[of i] n2[of i] by (simp add: a1_def)
  ultimately show ?thesis using l3 c3 by blast
qed

text \<open>
  C1. For every candidate and the template it resolves to (a note type of the
  collection, which has at least one field), \<^verbatim>\<open>_create_note\<close> returns a note with
  exactly one value per slot; the candidate held by the call is the one it was given;
  and every slot that is neither the target of source placement nor the slot named
  "back" holds the value matched for the slot at its own position.
\<close>

theorem assembly_shape:
  assumes "resolve_template d proto = Some nt" and "flds nt \<noteq> []"
  shows "\<exists>a deck. create_note_state d proto = Inr (a, deck)
        \<and> create_note d proto = Inr (asm_note a, deck)
        \<and> length (asm_note a) = length (flds nt)
        \<and> asm_candidate a = proto
        \<and> (\<forall>i<length (flds nt).
             source_target nt \<noteq> Some i \<and> find_slot (flds nt) 0 ''back'' \<noteq> Some i
             \<longrightarrow> asm_note a ! i = slot_match (gn_fields proto) (flds nt) i)"
proof -
  from assemble_result[OF assms(2), of proto] obtain a where
    a: "assemble nt proto = Inr a" "length (asm_note a) = length (flds nt)"
       "asm_candidate a = proto"
       "\<forall>i<length (flds nt).
             source_target nt \<noteq> Some i \<and> find_slot (flds nt) 0 ''back'' \<noteq> Some i
             \<longrightarrow> asm_note a ! i = slot_match (gn_fields proto) (flds nt) i"
    by blast
  from assms(1) a(1) obtain deck where s: "create_note_state d proto = Inr (a, deck)"
    by (auto simp: resolve_template_def create_note_state_def Let_def split: if_splits)
  then have "create_note d proto = Inr (asm_note a, deck)"
    by (simp add: create_note_def)
  with s a show ?thesis by blast
qed

theorem assembly_shape_witness:
  "resolve_template example_dialog
     (attributed [(''FRONT'', ''Q''), (''Hint'', ''H'')] (excerpt_only ''E'') 2) = Some cited
   \<and> flds cited \<noteq> []
   \<and> create_note example_dialog
       (attributed [(''FRONT'', ''Q''), (''Hint'', ''H'')] (excerpt_only ''E'') 2)
     = Inr ([''Q'', ''H'', ''E''], 7)
   \<and> slot_match [(''FRONT'', ''Q''), (''Hint'', ''H'')] (flds cited) 0 = ''Q''"
proof -
  let ?c = "attributed [(''FRONT'', ''Q''), (''Hint'', ''H'')] (excerpt_only ''E'') 2"
  have h1: "resolve_template example_dialog ?c = Some cited"
    by (simp add: resolve_template_def example_dialog_def set_preview_notes_def attributed_def)
  have h2: "flds cited \<noteq> []" by (simp add: cited_def)
  have e: "create_note example_dialog ?c = Inr ([''Q'', ''H'', ''E''], 7)"
    by code_simp
  have m: "slot_match [(''FRONT'', ''Q''), (''Hint'', ''H'')] (flds cited) 0 = ''Q''"
    by code_simp
  from assembly_shape[OF h1 h2] h1 h2 e m show ?thesis by simp
qed

text \<open>
  C3, as amended. For every candidate whose formatted attribution is not empty: when
  the template has a slot named "source", the formatted source is written to the
  first such slot, replacing the value matched there and nothing else; when no slot is
  named "source", the last slot becomes its value, the blank-line separator and the
  formatted source, concatenated and then trimmed.
\<close>

theorem source_placement:
  assumes "length (asm_note a) = length (flds nt)" and "flds nt \<noteq> []"
    and "format_source (gn_source (asm_candidate a)) \<noteq> []"
  shows "(\<forall>i. i < length (flds nt) \<and> lower (flds nt ! i) = ''source''
            \<and> (\<forall>j<i. lower (flds nt ! j) \<noteq> ''source'')
        \<longrightarrow> source_step nt a
            = Inr (a\<lparr>asm_note := (asm_note a)[i := format_source (gn_source (asm_candidate a))]\<rparr>))
   \<and> (''source'' \<notin> set (map lower (flds nt))
        \<longrightarrow> source_step nt a
            = Inr (a\<lparr>asm_note := butlast (asm_note a)
                        @ [strip (last (asm_note a) @ blank_line
                                  @ format_source (gn_source (asm_candidate a)))]\<rparr>))"
proof (intro conjI allI impI)
  fix i
  assume h: "i < length (flds nt) \<and> lower (flds nt ! i) = ''source''
            \<and> (\<forall>j<i. lower (flds nt ! j) \<noteq> ''source'')"
  then have "find_slot (flds nt) 0 ''source'' = Some (0 + i)"
    by (intro find_slot_first) auto
  then show "source_step nt a
            = Inr (a\<lparr>asm_note := (asm_note a)[i := format_source (gn_source (asm_candidate a))]\<rparr>)"
    by (simp add: source_step_result[OF assms(1,2)])
next
  assume "''source'' \<notin> set (map lower (flds nt))"
  then have n: "find_slot (flds nt) 0 ''source'' = None"
    by (simp add: find_slot_None)
  have "asm_note a \<noteq> []" using assms by auto
  from update_last[OF this] n assms(1)
  show "source_step nt a
            = Inr (a\<lparr>asm_note := butlast (asm_note a)
                        @ [strip (last (asm_note a) @ blank_line
                                  @ format_source (gn_source (asm_candidate a)))]\<rparr>)"
    by (simp add: source_step_result[OF assms(1,2)])
qed

theorem source_placement_witness:
  "format_source (excerpt_only ''E'') \<noteq> []
   \<and> lower (flds cited ! 2) = ''source''
   \<and> source_step cited
       \<lparr>asm_candidate = attributed [] (excerpt_only ''E'') 2, asm_field_map = [],
        asm_note = [''Q'', ''A'', ''old'']\<rparr>
     = Inr \<lparr>asm_candidate = attributed [] (excerpt_only ''E'') 2, asm_field_map = [],
            asm_note = [''Q'', ''A'', ''E'']\<rparr>
   \<and> ''source'' \<notin> set (map lower (flds basic))
   \<and> source_step basic
       \<lparr>asm_candidate = attributed [] (excerpt_only ''E'') 1, asm_field_map = [],
        asm_note = [''Q'', ''A '']\<rparr>
     = Inr \<lparr>asm_candidate = attributed [] (excerpt_only ''E'') 1, asm_field_map = [],
            asm_note = [''Q'', ''A '' @ blank_line @ ''E'']\<rparr>"
proof -
  let ?a2 = "\<lparr>asm_candidate = attributed [] (excerpt_only ''E'') 2, asm_field_map = [],
        asm_note = [''Q'', ''A'', ''old'']\<rparr>"
  let ?a3 = "\<lparr>asm_candidate = attributed [] (excerpt_only ''E'') 1, asm_field_map = [],
        asm_note = [''Q'', ''A '']\<rparr>"
  have f: "format_source (excerpt_only ''E'') = ''E''"
    by code_simp
  have b: "length (asm_note ?a3) = length (flds basic)" "flds basic \<noteq> []"
    "format_source (gn_source (asm_candidate ?a3)) \<noteq> []"
    by (simp_all add: basic_def attributed_def f)
  have c: "length (asm_note ?a2) = length (flds cited)" "flds cited \<noteq> []"
    "format_source (gn_source (asm_candidate ?a2)) \<noteq> []"
    by (simp_all add: cited_def attributed_def f)
  have s2: "2 < length (flds cited) \<and> lower (flds cited ! 2) = ''source''
            \<and> (\<forall>j<2. lower (flds cited ! j) \<noteq> ''source'')"
    by (simp add: cited_def lower_def lower_char_def upper_letters_def lower_letters_def
        less_2_cases_iff)
  have s3: "''source'' \<notin> set (map lower (flds basic))"
    by (simp add: basic_def lower_def lower_char_def upper_letters_def lower_letters_def)
  from source_placement[OF c] s2
  have r2: "source_step cited ?a2
            = Inr (?a2\<lparr>asm_note := (asm_note ?a2)[2 := format_source (gn_source (asm_candidate ?a2))]\<rparr>)"
    by blast
  from source_placement[OF b] s3
  have r3: "source_step basic ?a3 = Inr (?a3\<lparr>asm_note := butlast (asm_note ?a3)
                        @ [strip (last (asm_note ?a3) @ blank_line
                                  @ format_source (gn_source (asm_candidate ?a3)))]\<rparr>)"
    by blast
  from r2 r3 s2 s3 show ?thesis
    by (simp add: f attributed_def strip_def is_space_def blank_line_def)
qed

text \<open>In the fallback the space at the end of the last slot's value survives: the trim
  comes after the concatenation. And an attribution whose three parts are empty formats
  to the empty string, yet the value matched for the slot Source is replaced by it.\<close>

theorem source_placement_counterexample:
  "create_note example_dialog
     (attributed [(''Front'', ''Q''), (''Back'', ''A '')] (excerpt_only ''E'') 1)
   = Inr ([''Q'', ''A '' @ blank_line @ ''E''], 7)
   \<and> create_note example_dialog
       (attributed [(''Front'', ''Q''), (''Source'', ''kept'')] no_attribution 2)
     = Inr ([''Q'', [], []], 7)"
  by code_simp

text \<open>
  C4, as amended. The overflow step changes nothing, and raises nothing, when no slot
  is named "back" or when no unconsumed value is non-blank. Otherwise the first slot
  named "back" becomes its trimmed value, followed by the trimmed non-blank unconsumed
  values joined by blank lines; a blank line separates the two parts only when the
  trimmed existing value is not empty.
\<close>

theorem overflow_policy:
  assumes "length (asm_note a) = length (flds nt)"
  shows "(''back'' \<notin> set (map lower (flds nt)) \<or> extras_of (asm_field_map a) = []
          \<longrightarrow> overflow_step nt a = Inr a)
   \<and> (\<forall>i. i < length (flds nt) \<and> lower (flds nt ! i) = ''back''
          \<and> (\<forall>j<i. lower (flds nt ! j) \<noteq> ''back'') \<and> extras_of (asm_field_map a) \<noteq> []
        \<longrightarrow> overflow_step nt a
            = Inr (a\<lparr>asm_note := (asm_note a)[i :=
                     (if strip (asm_note a ! i) = [] then join blank_line (extras_of (asm_field_map a))
                      else strip (asm_note a ! i) @ blank_line
                           @ join blank_line (extras_of (asm_field_map a)))]\<rparr>))"
proof (intro conjI allI impI)
  assume "''back'' \<notin> set (map lower (flds nt)) \<or> extras_of (asm_field_map a) = []"
  then consider "find_slot (flds nt) 0 ''back'' = None" | "extras_of (asm_field_map a) = []"
    by (auto simp: find_slot_None)
  then show "overflow_step nt a = Inr a"
    by cases (simp_all add: overflow_step_result[OF assms] split: option.splits)
next
  fix i
  assume h: "i < length (flds nt) \<and> lower (flds nt ! i) = ''back''
          \<and> (\<forall>j<i. lower (flds nt ! j) \<noteq> ''back'') \<and> extras_of (asm_field_map a) \<noteq> []"
  then have "find_slot (flds nt) 0 ''back'' = Some (0 + i)"
    by (intro find_slot_first) auto
  with h show "overflow_step nt a
            = Inr (a\<lparr>asm_note := (asm_note a)[i :=
                     (if strip (asm_note a ! i) = [] then join blank_line (extras_of (asm_field_map a))
                      else strip (asm_note a ! i) @ blank_line
                           @ join blank_line (extras_of (asm_field_map a)))]\<rparr>)"
    by (simp add: overflow_step_result[OF assms])
qed

theorem overflow_policy_witness:
  "extras_of [(''extra'', [])] = []
   \<and> overflow_step basic
       \<lparr>asm_candidate = candidate [], asm_field_map = [(''extra'', [])],
        asm_note = [''Q'', '' A '']\<rparr>
     = Inr \<lparr>asm_candidate = candidate [], asm_field_map = [(''extra'', [])],
            asm_note = [''Q'', '' A '']\<rparr>
   \<and> lower (flds basic ! 1) = ''back''
   \<and> extras_of [(''extra'', '' E ''), (''more'', ''M'')] = [''E'', ''M'']
   \<and> overflow_step basic
       \<lparr>asm_candidate = candidate [], asm_field_map = [(''extra'', '' E ''), (''more'', ''M'')],
        asm_note = [''Q'', '' A '']\<rparr>
     = Inr \<lparr>asm_candidate = candidate [], asm_field_map = [(''extra'', '' E ''), (''more'', ''M'')],
            asm_note = [''Q'', ''A'' @ blank_line @ ''E'' @ blank_line @ ''M'']\<rparr>"
proof -
  let ?a1 = "\<lparr>asm_candidate = candidate [], asm_field_map = [(''extra'', [])],
        asm_note = [''Q'', '' A '']\<rparr>"
  let ?a2 = "\<lparr>asm_candidate = candidate [], asm_field_map = [(''extra'', '' E ''), (''more'', ''M'')],
        asm_note = [''Q'', '' A '']\<rparr>"
  have b: "length (asm_note ?a1) = length (flds basic)" "length (asm_note ?a2) = length (flds basic)"
    by (simp_all add: basic_def)
  have e1: "extras_of [(''extra'', [])] = []"
    by (simp add: extras_of_def strip_def)
  have e2: "extras_of [(''extra'', '' E ''), (''more'', ''M'')] = [''E'', ''M'']"
    by (simp add: extras_of_def strip_def is_space_def)
  have h1: "''back'' \<notin> set (map lower (flds basic)) \<or> extras_of (asm_field_map ?a1) = []"
    using e1 by simp
  have h2: "1 < length (flds basic) \<and> lower (flds basic ! 1) = ''back''
          \<and> (\<forall>j<1. lower (flds basic ! j) \<noteq> ''back'') \<and> extras_of (asm_field_map ?a2) \<noteq> []"
    using e2 by (simp add: basic_def lower_def lower_char_def upper_letters_def
        lower_letters_def)
  have t: "strip '' A '' = ''A''" by (simp add: strip_def is_space_def)
  from overflow_policy[OF b(1)] h1 have r1: "overflow_step basic ?a1 = Inr ?a1" by blast
  from overflow_policy[OF b(2)] h2
  have r2: "overflow_step basic ?a2 = Inr (?a2\<lparr>asm_note := (asm_note ?a2)[1 :=
                     (if strip (asm_note ?a2 ! 1) = [] then join blank_line (extras_of (asm_field_map ?a2))
                      else strip (asm_note ?a2 ! 1) @ blank_line
                           @ join blank_line (extras_of (asm_field_map ?a2)))]\<rparr>)"
    by blast
  from r1 r2 h2 e1 e2 show ?thesis by (simp add: t)
qed

text \<open>On the template Front, Back, Source: a field is unconsumed and a slot named Back
  exists, yet the back value keeps its surrounding spaces and nothing is appended,
  because the unconsumed value is empty. And on the template Front, Back an empty back
  value receives the overflow without a separator before it.\<close>

theorem overflow_policy_counterexample:
  "create_note example_dialog
     (attributed [(''Front'', ''Q''), (''Back'', '' A ''), (''Extra'', [])] no_attribution 2)
   = Inr ([''Q'', '' A '', []], 7)
   \<and> create_note example_dialog (candidate [(''Front'', ''Q''), (''Extra'', ''E'')])
     = Inr ([''Q'', ''E''], 7)"
  by code_simp

end
